theory Spec2Isabelle
  imports Complex_Main "HOL-Library.Word"
begin

section \<open>Lyric lines\<close>

text \<open>
  Numbers of the program are modelled as exact reals: every comparison and every
  arithmetic step of the source is kept, rounding of the 64-bit floats is not. The
  time tags of a lyric file are finite decimal numbers, so neither NaN nor an infinity
  reaches the lyric functions.
  A string is the sequence of its UTF-16 code units, which is what
  \<^verbatim>\<open>text.split('')\<close> and \<^verbatim>\<open>length\<close> count.
\<close>

type_synonym js_string = "16 word list"

text \<open>
  \<^verbatim>\<open>interface LyricLine { time: number; text: string; duration?: number }\<close>
  (the declaration of the lyrics view; the duration may be absent). The field
  \<^verbatim>\<open>text\<close> is named \<open>text_str\<close> here.
\<close>

record LyricLine =
  time :: real
  text_str :: js_string
  duration :: "real option"

text \<open>
  \<^verbatim>\<open>d || dflt\<close> on an optional number: an absent value and \<open>0\<close> are falsy.
\<close>

fun num_or :: "real option \<Rightarrow> real \<Rightarrow> real" where
  "num_or None dflt = dflt"
| "num_or (Some v) dflt = (if v = 0 then dflt else v)"

subsection \<open>The lyrics view: \<^verbatim>\<open>normalizeLyrics\<close>\<close>

definition MIN_DURATION :: real where
  "MIN_DURATION = 2.0"

definition LAST_DEFAULT :: real where
  "LAST_DEFAULT = 5.0"

text \<open>
  \<^verbatim>\<open>lyrics.map((line, i) => ...)\<close>: the callback reads \<^verbatim>\<open>lyrics[i + 1]\<close> only when
  \<open>i\<close> is not the last index. \<^verbatim>\<open>!duration || duration <= 0.1\<close> on a number is
  \<open>duration = 0 \<or> duration \<le> 0.1\<close>.
\<close>

definition normalize_line :: "LyricLine list \<Rightarrow> nat \<Rightarrow> LyricLine" where
  "normalize_line lyrics i =
     (let line = lyrics ! i in
      if int i = int (length lyrics) - 1
      then line\<lparr>duration := Some (num_or (duration line) LAST_DEFAULT)\<rparr>
      else
        let nextStart = time (lyrics ! (i + 1));
            d = nextStart - time line;
            d' = (if d = 0 \<or> d \<le> 0.1 then MIN_DURATION else d)
        in line\<lparr>duration := Some d'\<rparr>)"

definition normalizeLyrics :: "LyricLine list \<Rightarrow> LyricLine list" where
  "normalizeLyrics lyrics = map (normalize_line lyrics) [0..<length lyrics]"

subsection \<open>The application: the timeline loop of \<^verbatim>\<open>parseLrc\<close>\<close>

text \<open>
  \<^verbatim>\<open>parseLrc\<close> first collects \<^verbatim>\<open>tempLyrics\<close>, the (time, text) pairs of the
  lines that match the time-tag pattern and have a non-blank text, in the order of the
  file (it does not sort them). Its second loop, modelled here, turns \<^verbatim>\<open>tempLyrics\<close>
  into \<^verbatim>\<open>finalLyrics\<close>. \<^verbatim>\<open>tempLyrics[i + 1]\<close> is \<^verbatim>\<open>undefined\<close> past the end, where
  the time difference is 5.0.
\<close>

text \<open>The text of the transition line, three times U+2022.\<close>

definition dots :: js_string where
  "dots = [0x2022, 0x2022, 0x2022]"

definition parseLrc_entry :: "(real \<times> js_string) list \<Rightarrow> nat \<Rightarrow> LyricLine list" where
  "parseLrc_entry tempLyrics i =
     (let line = tempLyrics ! i;
          timeDiff = (if i + 1 < length tempLyrics
                      then fst (tempLyrics ! (i + 1)) - fst line else 5.0)
      in if timeDiff > 10.0
         then [\<lparr>time = fst line, text_str = snd line, duration = Some (timeDiff - 2.0)\<rparr>,
               \<lparr>time = fst line + (timeDiff - 2.0), text_str = dots, duration = Some 2.0\<rparr>]
         else [\<lparr>time = fst line, text_str = snd line, duration = Some timeDiff\<rparr>])"

definition parseLrc_finalLyrics :: "(real \<times> js_string) list \<Rightarrow> LyricLine list" where
  "parseLrc_finalLyrics tempLyrics =
     concat (map (parseLrc_entry tempLyrics) [0..<length tempLyrics])"

subsection \<open>The lyrics view: active line and row properties\<close>

text \<open>\<^verbatim>\<open>Array.prototype.findIndex\<close>: the first index whose element satisfies the
  predicate, \<open>-1\<close> when there is none.\<close>

fun findIndex_from :: "('a \<Rightarrow> bool) \<Rightarrow> 'a list \<Rightarrow> int \<Rightarrow> int" where
  "findIndex_from P [] i = - 1"
| "findIndex_from P (x # xs) i = (if P x then i else findIndex_from P xs (i + 1))"

definition findIndex :: "('a \<Rightarrow> bool) \<Rightarrow> 'a list \<Rightarrow> int" where
  "findIndex P xs = findIndex_from P xs 0"

definition is_current :: "real \<Rightarrow> LyricLine \<Rightarrow> bool" where
  "is_current currentTime l \<longleftrightarrow>
     currentTime \<ge> time l \<and> currentTime < time l + num_or (duration l) 3"

definition activeIndex :: "LyricLine list \<Rightarrow> real \<Rightarrow> int" where
  "activeIndex fixedLyrics currentTime = findIndex (is_current currentTime) fixedLyrics"

text \<open>The properties that \<^verbatim>\<open>LyricsView\<close> hands to the row of line \<open>i\<close>.\<close>

record RowProps =
  isActive :: bool
  isPast :: bool
  distance :: int
  rowTime :: real

definition row_props :: "int \<Rightarrow> real \<Rightarrow> nat \<Rightarrow> RowProps" where
  "row_props active currentTime i =
     \<lparr>isActive = (int i = active),
      isPast = (int i < active),
      distance = \<bar>int i - active\<bar>,
      rowTime = (if int i = active then currentTime else 0)\<rparr>"

text \<open>\<^verbatim>\<open>LyricsView\<close>: the normalized lines, each with its row properties.\<close>

definition LyricsView :: "LyricLine list \<Rightarrow> real \<Rightarrow> (LyricLine \<times> RowProps) list" where
  "LyricsView lyrics currentTime =
     (let fixedLyrics = normalizeLyrics lyrics;
          active = activeIndex fixedLyrics currentTime
      in map (\<lambda>i. (fixedLyrics ! i, row_props active currentTime i))
           [0..<length fixedLyrics])"

subsection \<open>The lyric row: blur, scale and per-character fill\<close>

definition blur :: "RowProps \<Rightarrow> real" where
  "blur p = (if isActive p then 0 else min 8 (real_of_int (distance p) * 1.5))"

definition scale :: "RowProps \<Rightarrow> real" where
  "scale p = (if isActive p then 1.05 else max 0.85 (1 - real_of_int (distance p) * 0.05))"

definition elapsed :: "LyricLine \<Rightarrow> real \<Rightarrow> real" where
  "elapsed line currentTime = max 0 (currentTime - time line)"

definition fillDuration :: "LyricLine \<Rightarrow> real" where
  "fillDuration line = max 0.5 (num_or (duration line) 3 * 0.85)"

definition progress :: "LyricLine \<Rightarrow> real \<Rightarrow> real" where
  "progress line currentTime = min 1 (elapsed line currentTime / fillDuration line)"

definition currentStep :: "LyricLine \<Rightarrow> real \<Rightarrow> real" where
  "currentStep line currentTime =
     progress line currentTime * real (length (text_str line))"

text \<open>The fill percent of character \<open>idx\<close> of the active line.\<close>

definition percent :: "LyricLine \<Rightarrow> real \<Rightarrow> nat \<Rightarrow> real" where
  "percent line currentTime idx =
     (let dist = currentStep line currentTime - real idx in max 0 (min 1 dist))"

definition fill_percents :: "LyricLine \<Rightarrow> real \<Rightarrow> real list" where
  "fill_percents line currentTime =
     map (percent line currentTime) [0..<length (text_str line)]"

subsection \<open>Timeline predicates\<close>

text \<open>Every line has a duration and it is strictly positive.\<close>

definition positive_durations :: "LyricLine list \<Rightarrow> bool" where
  "positive_durations ls =
     list_all (\<lambda>l. case duration l of None \<Rightarrow> False | Some d \<Rightarrow> 0 < d) ls"

text \<open>Every line but the last ends where the next one starts.\<close>

fun gapless :: "LyricLine list \<Rightarrow> bool" where
  "gapless (a # b # rest) =
     ((case duration a of None \<Rightarrow> False | Some d \<Rightarrow> time a + d = time b)
      \<and> gapless (b # rest))"
| "gapless _ = True"



text \<open>The interval of a line, as the specification words it.\<close>

definition in_interval :: "LyricLine \<Rightarrow> real \<Rightarrow> bool" where
  "in_interval l T =
     (case duration l of None \<Rightarrow> False | Some d \<Rightarrow> time l \<le> T \<and> T < time l + d)"

definition line_end :: "LyricLine \<Rightarrow> real" where
  "line_end l = (case duration l of None \<Rightarrow> time l | Some d \<Rightarrow> time l + d)"

section \<open>The spectrum: bars, peaks and the alpha of every draw call\<close>

subsection \<open>Bar height and peak hold\<close>

definition barsToRender :: nat where
  "barsToRender = 64"

text \<open>
  The height of bar \<open>i\<close> from the byte \<open>datum\<close> that the bar reads from the frequency
  data and the height of the window. \<^verbatim>\<open>Math.pow\<close> with a base in the interval from 0 to 1
  is \<open>powr\<close>.
\<close>

definition barHeight :: "bool \<Rightarrow> 8 word \<Rightarrow> real \<Rightarrow> nat \<Rightarrow> real" where
  "barHeight isPlaying datum height i =
     (let value = (if isPlaying then real (unat datum) else 0);
          percent = value / 255;
          boost = 1 + (if i < 10 then 0.3 else 0) + (if i > 50 then 0.5 else 0);
          bh = (percent powr 1.4 * height * 0.45) * boost
      in max 2 bh)"

text \<open>The update of the stored peak of one bar in one frame.\<close>

definition peak_update :: "real \<Rightarrow> real \<Rightarrow> real" where
  "peak_update bh peak = (if bh > peak then bh else peak * 0.95 - 0.5)"

text \<open>The stored peak of a bar after the frames that drew it with the given heights.\<close>

fun peaks_after :: "real \<Rightarrow> real list \<Rightarrow> real" where
  "peaks_after peak [] = peak"
| "peaks_after peak (h # hs) = peaks_after (peak_update h peak) hs"

subsection \<open>The drawing context\<close>

text \<open>
  A draw call of the frame; a particle and a glow carry the alpha of their own that
  the frame multiplies into the global alpha.
\<close>

datatype draw_call =
  RainStroke | RocketFill | ParticleFill real | BokehFill real
  | BarFill | ReflectionFill | PeakFill

text \<open>
  Of the 2D context only \<^verbatim>\<open>globalAlpha\<close> is kept, together with the log of the draw
  calls and the global alpha that was in force at each.
\<close>

record ctx2d =
  globalAlpha :: real
  calls :: "(draw_call \<times> real) list"

text \<open>
  Assigning \<^verbatim>\<open>ctx.globalAlpha\<close>: the canvas stores a value between 0 and 1 and ignores
  any other, keeping the value it had.
\<close>

definition set_globalAlpha :: "real \<Rightarrow> ctx2d \<Rightarrow> ctx2d" where
  "set_globalAlpha v c = (if 0 \<le> v \<and> v \<le> 1 then c\<lparr>globalAlpha := v\<rparr> else c)"

definition emit :: "draw_call \<Rightarrow> ctx2d \<Rightarrow> ctx2d" where
  "emit d c = c\<lparr>calls := calls c @ [(d, globalAlpha c)]\<rparr>"

subsection \<open>The pools\<close>

text \<open>
  Only the fields that decide which draw calls happen, and with which alpha, are kept:
  positions, sizes, colours and horizontal velocities, and the random numbers that
  only feed them, are left out.
\<close>

record FireworkRocket =
  r_y :: real
  r_targetY :: real
  r_vy :: real

record FireworkParticle =
  p_alpha :: real

record Sparkle =
  s_alpha :: real
  s_life :: real
  s_maxLife :: real

record SpectrumState =
  rockets :: "FireworkRocket list"
  particles :: "FireworkParticle list"
  sparkles :: "Sparkle list"
  peaks :: "real list"

record SpectrumProps =
  isPlaying :: bool
  brightness :: real
  enableRain :: bool
  enableFireworks :: bool
  enableBokeh :: bool

text \<open>
  What a frame reads from outside: the height of the window, the high-band energy
  \<^verbatim>\<open>normHigh\<close> that the frame computed from the frequency data, and the byte that each
  bar reads.
\<close>

record FrameInput =
  height :: real
  normHigh :: real
  barData :: "nat \<Rightarrow> 8 word"

subsection \<open>The loops of a frame\<close>

text \<open>
  The three pool loops run from the last index down and remove with \<^verbatim>\<open>splice\<close>; the
  functions below take the pool in that order (reversed) and return what is kept in the
  same order. An exploding rocket pushes 40 particles of alpha 1.
\<close>

definition particleCount :: nat where
  "particleCount = 40"

fun update_rockets ::
  "FireworkRocket list \<Rightarrow> ctx2d \<Rightarrow> FireworkParticle list
   \<Rightarrow> FireworkRocket list \<times> ctx2d \<times> FireworkParticle list" where
  "update_rockets [] c ps = ([], c, ps)"
| "update_rockets (rocket # rest) c ps =
     (let y' = r_y rocket + r_vy rocket;
          vy' = r_vy rocket + 0.2;
          rocket' = rocket\<lparr>r_y := y', r_vy := vy'\<rparr>;
          c' = emit RocketFill c
      in if vy' \<ge> - 2 \<or> y' \<le> r_targetY rocket
         then update_rockets rest c' (ps @ replicate particleCount \<lparr>p_alpha = 1\<rparr>)
         else (case update_rockets rest c' ps of
                 (kept, c'', ps'') \<Rightarrow> (rocket' # kept, c'', ps'')))"

fun update_particles ::
  "real \<Rightarrow> FireworkParticle list \<Rightarrow> ctx2d \<Rightarrow> FireworkParticle list \<times> ctx2d" where
  "update_particles b [] c = ([], c)"
| "update_particles b (p # rest) c =
     (let p' = p\<lparr>p_alpha := p_alpha p - 0.015\<rparr>
      in if p_alpha p' \<le> 0 then update_particles b rest c
         else
           let c1 = set_globalAlpha (p_alpha p' * b) c;
               c2 = emit (ParticleFill (p_alpha p')) c1;
               c3 = set_globalAlpha b c2
           in (case update_particles b rest c3 of
                 (kept, c4) \<Rightarrow> (p' # kept, c4)))"

fun update_sparkles ::
  "real \<Rightarrow> real \<Rightarrow> Sparkle list \<Rightarrow> ctx2d \<Rightarrow> Sparkle list \<times> ctx2d" where
  "update_sparkles b nh [] c = ([], c)"
| "update_sparkles b nh (p # rest) c =
     (let life' = s_life p + 1;
          alpha' = (if life' < 30 then (life' / 30) * (0.3 + nh * 0.4)
                    else if life' > s_maxLife p - 30
                    then ((s_maxLife p - life') / 30) * (0.3 + nh * 0.4)
                    else s_alpha p);
          p' = p\<lparr>s_life := life', s_alpha := alpha'\<rparr>
      in if life' \<ge> s_maxLife p then update_sparkles b nh rest c
         else
           let c1 = set_globalAlpha (alpha' * b) c;
               c2 = emit (BokehFill alpha') c1;
               c3 = set_globalAlpha b c2
           in (case update_sparkles b nh rest c3 of
                 (kept, c4) \<Rightarrow> (p' # kept, c4)))"

text \<open>The bars, for the indices given: bar, reflection, peak update, peak marker.\<close>

fun draw_bars ::
  "bool \<Rightarrow> FrameInput \<Rightarrow> nat list \<Rightarrow> real list \<Rightarrow> ctx2d \<Rightarrow> real list \<times> ctx2d" where
  "draw_bars playing inp [] pks c = (pks, c)"
| "draw_bars playing inp (i # rest) pks c =
     (let bh = barHeight playing (barData inp i) (height inp) i;
          c1 = emit BarFill c;
          c2 = emit ReflectionFill c1;
          pks' = pks[i := peak_update bh (pks ! i)];
          c3 = (if pks' ! i > 5 then emit PeakFill c2 else c2)
      in draw_bars playing inp rest pks' c3)"

subsection \<open>One frame\<close>

text \<open>
  \<^verbatim>\<open>draw\<close>, from the pools as they are after the random launch of a rocket and the
  random spawn of a glow. A frame starts with the global alpha 1.0 that the frame before
  it (or the fresh context) left, and the peaks hold one entry per bar.
\<close>

definition draw :: "SpectrumProps \<Rightarrow> FrameInput \<Rightarrow> SpectrumState \<Rightarrow> SpectrumState \<times> ctx2d" where
  "draw props inp st =
     (let c0 = \<lparr>globalAlpha = 1.0, calls = []\<rparr>;
          c1 = set_globalAlpha (min 1 (max 0 (brightness props))) c0;
          c2 = (if enableRain props then emit RainStroke c1 else c1);
          (rockets', particles', c3) =
            (if enableFireworks props
             then (case update_rockets (rev (rockets st)) c2 (particles st) of
                     (rs, c', ps) \<Rightarrow>
                       (case update_particles (brightness props) (rev ps) c' of
                          (ps', c'') \<Rightarrow> (rev rs, rev ps', c'')))
             else (rockets st, particles st, c2));
          (sparkles', c4) =
            (if enableBokeh props
             then (case update_sparkles (brightness props) (normHigh inp)
                          (rev (sparkles st)) c3 of
                     (ss, c') \<Rightarrow> (rev ss, c'))
             else (sparkles st, c3));
          (peaks', c5) = draw_bars (isPlaying props) inp [0..<barsToRender] (peaks st) c4;
          c6 = set_globalAlpha 1.0 c5
      in (\<lparr>rockets = rockets', particles = particles', sparkles = sparkles',
           peaks = peaks'\<rparr>, c6))"

text \<open>
  The property of the specification: every draw call happens under the global alpha
  that is its own alpha times the brightness clamped to the interval from 0 to 1.
\<close>

fun own_alpha :: "draw_call \<Rightarrow> real" where
  "own_alpha (ParticleFill a) = a"
| "own_alpha (BokehFill a) = a"
| "own_alpha _ = 1"

definition brightness_uniform :: "real \<Rightarrow> (draw_call \<times> real) list \<Rightarrow> bool" where
  "brightness_uniform b cs =
     list_all (\<lambda>(d, g). g = own_alpha d * min 1 (max 0 b)) cs"

text \<open>The invariant of the loops of a frame while the brightness is at most 1.\<close>

definition alpha_inv :: "real \<Rightarrow> ctx2d \<Rightarrow> bool" where
  "alpha_inv b c \<longleftrightarrow> globalAlpha c = b \<and> brightness_uniform b (calls c)"

section \<open>Recursive characterisations\<close>

lemma length_normalizeLyrics [simp]: "length (normalizeLyrics ls) = length ls"
  by (simp add: normalizeLyrics_def)

lemma normalizeLyrics_nth:
  "i < length ls \<Longrightarrow> normalizeLyrics ls ! i = normalize_line ls i"
  by (simp add: normalizeLyrics_def)

lemma time_normalize_line [simp]: "time (normalize_line ls i) = time (ls ! i)"
  by (simp add: normalize_line_def Let_def)

lemma text_normalize_line [simp]: "text_str (normalize_line ls i) = text_str (ls ! i)"
  by (simp add: normalize_line_def Let_def)

lemma num_or_nonzero: "x \<noteq> 0 \<Longrightarrow> num_or d x \<noteq> 0"
  by (cases d) auto

lemma normalize_line_last:
  "Suc i = length ls \<Longrightarrow>
   normalize_line ls i = (ls ! i)\<lparr>duration := Some (num_or (duration (ls ! i)) 5)\<rparr>"
  by (auto simp add: normalize_line_def Let_def LAST_DEFAULT_def)

lemma normalize_line_inner:
  "Suc i < length ls \<Longrightarrow>
   normalize_line ls i =
     (ls ! i)\<lparr>duration := Some (if time (ls ! Suc i) - time (ls ! i) \<le> 1 / 10 then 2
                               else time (ls ! Suc i) - time (ls ! i))\<rparr>"
  by (auto simp add: normalize_line_def Let_def MIN_DURATION_def)

lemma map_upt_Suc: "map f [0..<Suc n] = f 0 # map (\<lambda>i. f (Suc i)) [0..<n]"
  by (simp only: upt_conv_Cons [of 0 "Suc n"] zero_less_Suc list.map map_Suc_upt [symmetric] map_map comp_def if_True)

lemma normalize_line_Suc:
  "normalize_line (a # ls) (Suc i) = normalize_line ls i"
  by (simp add: normalize_line_def Let_def)

lemma normalizeLyrics_Nil: "normalizeLyrics [] = []"
  by (simp add: normalizeLyrics_def)

lemma normalizeLyrics_single:
  "normalizeLyrics [a] = [a\<lparr>duration := Some (num_or (duration a) 5)\<rparr>]"
  by (simp add: normalizeLyrics_def normalize_line_last)

lemma normalizeLyrics_Cons2:
  "normalizeLyrics (a # b # rest) =
     a\<lparr>duration := Some (if time b - time a \<le> 1 / 10 then 2 else time b - time a)\<rparr>
       # normalizeLyrics (b # rest)"
proof -
  have "normalizeLyrics (a # b # rest) =
      normalize_line (a # b # rest) 0
        # map (\<lambda>i. normalize_line (a # b # rest) (Suc i)) [0..<length (b # rest)]"
    by (simp only: normalizeLyrics_def length_Cons map_upt_Suc)
  also have "map (\<lambda>i. normalize_line (a # b # rest) (Suc i)) [0..<length (b # rest)]
      = normalizeLyrics (b # rest)"
    by (simp only: normalize_line_Suc normalizeLyrics_def)
  finally show ?thesis by (simp add: normalize_line_inner)
qed

lemma parseLrc_entry_Suc:
  "parseLrc_entry (a # ts) (Suc i) = parseLrc_entry ts i"
  by (simp add: parseLrc_entry_def Let_def)

lemma parseLrc_Nil: "parseLrc_finalLyrics [] = []"
  by (simp add: parseLrc_finalLyrics_def)

lemma parseLrc_single:
  "parseLrc_finalLyrics [a] = [\<lparr>time = fst a, text_str = snd a, duration = Some 5\<rparr>]"
  by (simp add: parseLrc_finalLyrics_def parseLrc_entry_def)

lemma parseLrc_Cons2:
  "parseLrc_finalLyrics (a # b # rest) =
     (if 10 < fst b - fst a
      then [\<lparr>time = fst a, text_str = snd a, duration = Some (fst b - fst a - 2)\<rparr>,
            \<lparr>time = fst a + (fst b - fst a - 2), text_str = dots, duration = Some 2\<rparr>]
      else [\<lparr>time = fst a, text_str = snd a, duration = Some (fst b - fst a)\<rparr>])
     @ parseLrc_finalLyrics (b # rest)"
proof -
  have "parseLrc_finalLyrics (a # b # rest) =
      parseLrc_entry (a # b # rest) 0
        @ concat (map (\<lambda>i. parseLrc_entry (a # b # rest) (Suc i)) [0..<length (b # rest)])"
    by (simp only: parseLrc_finalLyrics_def length_Cons map_upt_Suc concat.simps)
  also have "concat (map (\<lambda>i. parseLrc_entry (a # b # rest) (Suc i)) [0..<length (b # rest)])
      = parseLrc_finalLyrics (b # rest)"
    by (simp only: parseLrc_entry_Suc parseLrc_finalLyrics_def)
  finally show ?thesis by (simp add: parseLrc_entry_def)
qed



lemma positive_durations_Cons:
  "positive_durations (a # ys) \<longleftrightarrow>
     (case duration a of None \<Rightarrow> False | Some d \<Rightarrow> 0 < d) \<and> positive_durations ys"
  by (simp add: positive_durations_def)


lemma parseLrc_hd:
  "parseLrc_finalLyrics (b # rest) \<noteq> [] \<and> time (hd (parseLrc_finalLyrics (b # rest))) = fst b"
  by (cases rest) (simp_all add: parseLrc_single parseLrc_Cons2)

lemma normalizeLyrics_hd:
  "normalizeLyrics (b # rest) \<noteq> [] \<and> time (hd (normalizeLyrics (b # rest))) = time b"
  by (cases rest) (simp_all add: normalizeLyrics_single normalizeLyrics_Cons2)



lemma parseLrc_last_duration:
  "ts \<noteq> [] \<Longrightarrow> duration (last (parseLrc_finalLyrics ts)) = Some 5"
proof (induction ts rule: induct_list012)
  case 1
  then show ?case by simp
next
  case (2 a)
  show ?case by (simp add: parseLrc_single)
next
  case (3 a b rest)
  then show ?case
    using parseLrc_hd [of b rest] by (simp add: parseLrc_Cons2)
qed






section \<open>The normalized timeline\<close>




section \<open>Gap insertion\<close>

text \<open>
  Claim C4. Two lines at 0 and 15 seconds become three: the first with duration 13,
  the transition line, whose text is three bullets U+2022, at 13 with duration 2, and
  the second line with its own time and text (and the default duration 5.0 of a last
  line).
\<close>

theorem parseLrc_gap_insertion:
  "parseLrc_finalLyrics [(0, a), (15, b)] =
     [\<lparr>time = 0, text_str = a, duration = Some 13\<rparr>,
      \<lparr>time = 13, text_str = [0x2022, 0x2022, 0x2022], duration = Some 2\<rparr>,
      \<lparr>time = 15, text_str = b, duration = Some 5\<rparr>]"
  by (simp add: parseLrc_Cons2 parseLrc_single dots_def)


section \<open>The active line\<close>

lemma findIndex_from_shift:
  "0 \<le> k \<Longrightarrow>
   findIndex_from P xs (k + d) =
     (if findIndex_from P xs k = - 1 then - 1 else findIndex_from P xs k + d)"
proof (induction xs arbitrary: k)
  case Nil
  show ?case by simp
next
  case (Cons x xs)
  show ?case
  proof (cases "P x")
    case True
    then show ?thesis using Cons.prems by simp
  next
    case False
    have "findIndex_from P xs (k + 1 + d) =
        (if findIndex_from P xs (k + 1) = - 1 then - 1 else findIndex_from P xs (k + 1) + d)"
      using Cons.prems by (intro Cons.IH) simp
    then show ?thesis using False by (simp add: add.commute add.left_commute)
  qed
qed

lemma findIndex_from_range:
  "0 \<le> k \<Longrightarrow>
   findIndex_from P xs k = - 1
   \<or> (k \<le> findIndex_from P xs k \<and> findIndex_from P xs k < k + int (length xs))"
proof (induction xs arbitrary: k)
  case Nil
  show ?case by simp
next
  case (Cons x xs)
  have "0 \<le> k + 1" using Cons.prems by simp
  from Cons.IH [OF this] show ?case by auto
qed

lemma findIndex_Nil: "findIndex P [] = - 1"
  by (simp add: findIndex_def)

lemma findIndex_Cons:
  "findIndex P (x # xs) =
     (if P x then 0 else if findIndex P xs = - 1 then - 1 else findIndex P xs + 1)"
  using findIndex_from_shift [of 0 P xs 1] by (simp add: findIndex_def)

lemma findIndex_range:
  "findIndex P xs = - 1 \<or> (0 \<le> findIndex P xs \<and> findIndex P xs < int (length xs))"
  using findIndex_from_range [of 0 P xs] by (simp add: findIndex_def)

lemma findIndex_none: "findIndex P xs = - 1 \<longleftrightarrow> (\<forall>x \<in> set xs. \<not> P x)"
proof (induction xs)
  case Nil
  show ?case by (simp add: findIndex_Nil)
next
  case (Cons x xs)
  then show ?case using findIndex_range [of P xs] by (auto simp add: findIndex_Cons)
qed

lemma findIndex_first:
  "findIndex P xs \<noteq> - 1 \<Longrightarrow>
   0 \<le> findIndex P xs \<and> nat (findIndex P xs) < length xs
   \<and> P (xs ! nat (findIndex P xs)) \<and> (\<forall>j < nat (findIndex P xs). \<not> P (xs ! j))"
proof (induction xs)
  case Nil
  then show ?case by (simp add: findIndex_Nil)
next
  case (Cons x xs)
  show ?case
  proof (cases "P x")
    case True
    then show ?thesis by (simp add: findIndex_Cons)
  next
    case False
    with Cons.prems have ne: "findIndex P xs \<noteq> - 1"
      by (simp add: findIndex_Cons split: if_splits)
    from Cons.IH [OF ne] have ih: "0 \<le> findIndex P xs" "nat (findIndex P xs) < length xs"
      "P (xs ! nat (findIndex P xs))" "\<forall>j < nat (findIndex P xs). \<not> P (xs ! j)"
      by blast+
    have eq: "findIndex P (x # xs) = findIndex P xs + 1"
      using False ne by (simp add: findIndex_Cons)
    have n: "nat (findIndex P xs + 1) = Suc (nat (findIndex P xs))"
      using ih(1) by simp
    show ?thesis
      unfolding eq n using ih False
      by (auto simp add: nth_Cons split: nat.splits)
  qed
qed


lemma normalizeLyrics_duration:
  assumes "l \<in> set (normalizeLyrics ls)"
  shows "\<exists>d. duration l = Some d \<and> d \<noteq> 0"
proof -
  from assms obtain i where i: "i < length ls" and l: "l = normalizeLyrics ls ! i"
    by (auto simp add: in_set_conv_nth)
  show ?thesis
  proof (cases "Suc i = length ls")
    case True
    then show ?thesis using i l
      by (simp add: normalizeLyrics_nth normalize_line_last num_or_nonzero)
  next
    case False
    then have "Suc i < length ls" using i by linarith
    then show ?thesis using i l
      by (simp add: normalizeLyrics_nth normalize_line_inner)
  qed
qed

lemma is_current_in_interval:
  "duration l = Some d \<Longrightarrow> d \<noteq> 0 \<Longrightarrow> is_current T l = in_interval l T"
  by (auto simp add: is_current_def in_interval_def)

lemma is_current_normalized:
  "l \<in> set (normalizeLyrics ls) \<Longrightarrow> is_current T l = in_interval l T"
  using normalizeLyrics_duration [of l ls] is_current_in_interval [of l _ T] by blast

lemma activeIndex_first:
  fixes ls T
  defines "fl \<equiv> normalizeLyrics ls"
  defines "a \<equiv> activeIndex fl T"
  shows "(a = - 1 \<and> (\<forall>l \<in> set fl. \<not> in_interval l T))
     \<or> (0 \<le> a \<and> nat a < length fl \<and> in_interval (fl ! nat a) T
        \<and> (\<forall>j < nat a. \<not> in_interval (fl ! j) T))"
proof (cases "a = - 1")
  case True
  then have "\<forall>l \<in> set fl. \<not> is_current T l"
    by (simp add: a_def activeIndex_def findIndex_none)
  then have "\<forall>l \<in> set fl. \<not> in_interval l T"
    using is_current_normalized [of _ ls T] by (simp add: fl_def)
  with True show ?thesis by blast
next
  case False
  then have ne: "findIndex (is_current T) fl \<noteq> - 1"
    by (simp add: a_def activeIndex_def)
  from findIndex_first [OF ne]
  have f: "0 \<le> a" "nat a < length fl" "is_current T (fl ! nat a)"
    "\<forall>j < nat a. \<not> is_current T (fl ! j)"
    by (simp_all add: a_def activeIndex_def)
  have conv: "\<And>j. j < length fl \<Longrightarrow> is_current T (fl ! j) = in_interval (fl ! j) T"
    using is_current_normalized [of _ ls T] by (simp add: fl_def)
  have "in_interval (fl ! nat a) T" using f(2,3) conv by blast
  moreover have "\<forall>j < nat a. \<not> in_interval (fl ! j) T"
    using f(2,4) conv by (metis less_trans)
  ultimately show ?thesis using f(1,2) by blast
qed

lemma timeline_span:
  "fl \<noteq> [] \<Longrightarrow> positive_durations fl \<Longrightarrow> gapless fl \<Longrightarrow>
   time (hd fl) < line_end (last fl)"
proof (induction fl rule: induct_list012)
  case 1
  then show ?case by simp
next
  case (2 a)
  then show ?case
    by (simp add: positive_durations_def line_end_def split: option.splits)
next
  case (3 a b rest)
  then have "time b < line_end (last (b # rest))"
    by (simp add: positive_durations_Cons)
  moreover have "time a < time b"
    using "3.prems" by (simp add: positive_durations_Cons split: option.splits)
  ultimately show ?case by simp
qed

lemma activeIndex_none_timeline:
  "fl \<noteq> [] \<Longrightarrow> positive_durations fl \<Longrightarrow> gapless fl \<Longrightarrow>
   activeIndex fl T = - 1 \<longleftrightarrow> T < time (hd fl) \<or> line_end (last fl) \<le> T"
proof (induction fl rule: induct_list012)
  case 1
  then show ?case by simp
next
  case (2 a)
  then show ?case
    by (auto simp add: activeIndex_def findIndex_Cons findIndex_Nil is_current_def
        positive_durations_def line_end_def split: option.splits)
next
  case (3 a b rest)
  from "3.prems" obtain d where d: "duration a = Some d" "0 < d" "time a + d = time b"
    by (auto simp add: positive_durations_Cons split: option.splits)
  have pos: "positive_durations (b # rest)" and gl: "gapless (b # rest)"
    using "3.prems" by (simp_all add: positive_durations_Cons)
  have IH: "activeIndex (b # rest) T = - 1 \<longleftrightarrow> T < time b \<or> line_end (last (b # rest)) \<le> T"
    using "3.IH"(2) pos gl by simp
  have span: "time b < line_end (last (b # rest))"
    using timeline_span [of "b # rest"] pos gl by simp
  have cur: "is_current T a \<longleftrightarrow> time a \<le> T \<and> T < time b"
    using d by (auto simp add: is_current_def)
  have "activeIndex (a # b # rest) T = - 1 \<longleftrightarrow>
      \<not> is_current T a \<and> activeIndex (b # rest) T = - 1"
    using findIndex_range [of "is_current T" "b # rest"]
    by (auto simp add: activeIndex_def findIndex_Cons [of _ a])
  also have "\<dots> \<longleftrightarrow> T < time a \<or> line_end (last (b # rest)) \<le> T"
    using cur IH span d by auto
  finally show ?case by simp
qed


lemma last_normalizeLyrics:
  "ls \<noteq> [] \<Longrightarrow>
   last (normalizeLyrics ls) = (last ls)\<lparr>duration := Some (num_or (duration (last ls)) 5)\<rparr>"
proof (induction ls rule: induct_list012)
  case 1
  then show ?case by simp
next
  case (2 a)
  show ?case by (simp add: normalizeLyrics_single)
next
  case (3 a b rest)
  then show ?case
    using normalizeLyrics_hd [of b rest] by (simp add: normalizeLyrics_Cons2)
qed

lemma sorted_hd_le_last:
  fixes xs :: "real list"
  shows "xs \<noteq> [] \<Longrightarrow> sorted xs \<Longrightarrow> hd xs \<le> last xs"
  by (cases xs) auto

lemma normalized_end_bound:
  assumes "ls \<noteq> []" "sorted (map time ls)" "2 \<le> num_or (duration (last ls)) 5"
  shows "time (hd ls) + 2 \<le> line_end (last (normalizeLyrics ls))"
proof -
  have "time (hd ls) \<le> time (last ls)"
    using sorted_hd_le_last [of "map time ls"] assms(1,2)
    by (simp add: hd_map last_map)
  then show ?thesis
    using assms(1,3) by (simp add: last_normalizeLyrics line_end_def)
qed

lemma activeIndex_Cons_none:
  "activeIndex (x # xs) T = - 1 \<longleftrightarrow> \<not> is_current T x \<and> activeIndex xs T = - 1"
  using findIndex_range [of "is_current T" xs]
  by (auto simp add: activeIndex_def findIndex_Cons)

lemma activeIndex_none_sorted:
  "ls \<noteq> [] \<Longrightarrow> sorted (map time ls) \<Longrightarrow> 2 \<le> num_or (duration (last ls)) 5 \<Longrightarrow>
   activeIndex (normalizeLyrics ls) T = - 1
   \<longleftrightarrow> T < time (hd (normalizeLyrics ls)) \<or> line_end (last (normalizeLyrics ls)) \<le> T"
proof (induction ls rule: induct_list012)
  case 1
  then show ?case by simp
next
  case (2 a)
  then show ?case
    by (auto simp add: normalizeLyrics_single activeIndex_def findIndex_Cons findIndex_Nil
        is_current_def line_end_def)
next
  case (3 a b rest)
  let ?fl = "normalizeLyrics (b # rest)"
  let ?E = "line_end (last ?fl)"
  let ?d = "if time b - time a \<le> 1 / 10 then 2 else time b - time a"
  let ?a = "a\<lparr>duration := Some ?d\<rparr>"
  have le: "time a \<le> time b" and srt: "sorted (map time (b # rest))"
    using "3.prems"(2) by simp_all
  have lst: "2 \<le> num_or (duration (last (b # rest))) 5"
    using "3.prems"(3) by simp
  have IH: "activeIndex ?fl T = - 1 \<longleftrightarrow> T < time b \<or> ?E \<le> T"
    using "3.IH"(2) [OF _ srt lst] normalizeLyrics_hd [of b rest] by simp
  have bound: "time b + 2 \<le> ?E"
    using normalized_end_bound [of "b # rest"] srt lst by simp
  have cur: "is_current T ?a \<longleftrightarrow> time a \<le> T \<and> T < time a + ?d"
    by (auto simp add: is_current_def)
  have eq: "normalizeLyrics (a # b # rest) = ?a # ?fl"
    by (simp add: normalizeLyrics_Cons2)
  have lasteq: "last (normalizeLyrics (a # b # rest)) = last ?fl"
    using normalizeLyrics_hd [of b rest] by (simp add: eq)
  have "activeIndex (normalizeLyrics (a # b # rest)) T = - 1 \<longleftrightarrow>
      \<not> is_current T ?a \<and> activeIndex ?fl T = - 1"
    unfolding eq by (rule activeIndex_Cons_none)
  also have "\<dots> \<longleftrightarrow> T < time a \<or> ?E \<le> T"
    unfolding cur IH using le bound by (auto split: if_splits)
  finally show ?case unfolding lasteq by (simp add: eq)
qed

lemma parseLrc_sorted:
  "sorted (map fst ts) \<Longrightarrow> sorted (map time (parseLrc_finalLyrics ts))"
proof (induction ts rule: induct_list012)
  case 1
  show ?case by (simp add: parseLrc_Nil)
next
  case (2 a)
  show ?case by (simp add: parseLrc_single)
next
  case (3 a b rest)
  then have le: "fst a \<le> fst b"
    and IH: "sorted (map time (parseLrc_finalLyrics (b # rest)))"
    by simp_all
  obtain l ls where eq: "parseLrc_finalLyrics (b # rest) = l # ls" and l: "time l = fst b"
    using parseLrc_hd [of b rest] by (cases "parseLrc_finalLyrics (b # rest)") auto
  have all: "\<forall>x \<in> set (map time ls). fst b \<le> x"
    using IH by (simp add: eq l)
  show ?case
    using le IH l all by (auto simp add: parseLrc_Cons2 eq)
qed

lemma activeIndex_none_pipeline:
  assumes "ts \<noteq> []" "sorted (map fst ts)"
  shows "activeIndex (normalizeLyrics (parseLrc_finalLyrics ts)) T = - 1
   \<longleftrightarrow> T < time (hd (normalizeLyrics (parseLrc_finalLyrics ts)))
      \<or> line_end (last (normalizeLyrics (parseLrc_finalLyrics ts))) \<le> T"
proof -
  obtain a rest where ts: "ts = a # rest" using assms(1) by (cases ts) auto
  have ne: "parseLrc_finalLyrics ts \<noteq> []"
    using parseLrc_hd [of a rest] by (simp add: ts)
  have "duration (last (parseLrc_finalLyrics ts)) = Some 5"
    using parseLrc_last_duration [OF assms(1)] .
  then have "2 \<le> num_or (duration (last (parseLrc_finalLyrics ts))) 5" by simp
  then show ?thesis
    using activeIndex_none_sorted [OF ne parseLrc_sorted [OF assms(2)]] by simp
qed


text \<open>
  The time tags have to be in order, as the specification asks of the input:
  \<^verbatim>\<open>parseLrc\<close> does not sort them. For the tags 10 and 1 the view holds the intervals
  from 10 to 12 and from 1 to 6: the time 2 precedes the start of the first line and
  has an active line, and the time 11 is past the end of the last line and has one too.
\<close>

lemma activeIndex_unsorted_tags:
  "2 < time (hd (normalizeLyrics (parseLrc_finalLyrics [(10, [0x61]), (1, [0x62])])))
   \<and> activeIndex (normalizeLyrics (parseLrc_finalLyrics [(10, [0x61]), (1, [0x62])])) 2 = 1
   \<and> line_end (last (normalizeLyrics (parseLrc_finalLyrics [(10, [0x61]), (1, [0x62])]))) \<le> 11
   \<and> activeIndex (normalizeLyrics (parseLrc_finalLyrics [(10, [0x61]), (1, [0x62])])) 11 = 0"
  by (simp add: parseLrc_Cons2 parseLrc_single normalizeLyrics_Cons2 normalizeLyrics_single
      activeIndex_def findIndex_Cons findIndex_Nil is_current_def line_end_def)

text \<open>
  Claim C5. For every list returned by \<^verbatim>\<open>normalizeLyrics\<close> and every time \<open>T\<close>, the
  active index is the lowest index of a line with \<open>start \<le> T < start + duration\<close>,
  and \<open>-1\<close> when no line has such an interval. For time tags in non-decreasing order
  (equal tags included), normalized after \<^verbatim>\<open>parseLrc\<close>, there is no active line
  exactly when \<open>T\<close> precedes the start of the first line or is at or past the end of
  the last one; the same holds for \<^verbatim>\<open>normalizeLyrics\<close> on any list with
  non-decreasing starts whose last line has no duration, or one of 0 or of at least 2
  seconds. For the lines at 0 and 5 with duration 5 and the time 6, the active index is
  1 and line 0 has distance 1.
\<close>

theorem activeIndex_first_containing:
  "(let fl = normalizeLyrics ls; a = activeIndex fl T in
      (a = - 1 \<and> (\<forall>l \<in> set fl. \<not> in_interval l T))
      \<or> (0 \<le> a \<and> nat a < length fl \<and> in_interval (fl ! nat a) T
         \<and> (\<forall>j < nat a. \<not> in_interval (fl ! j) T)))
   \<and> (ts \<noteq> [] \<and> sorted (map fst ts) \<longrightarrow>
        (activeIndex (normalizeLyrics (parseLrc_finalLyrics ts)) T = - 1 \<longleftrightarrow>
           T < time (hd (normalizeLyrics (parseLrc_finalLyrics ts)))
           \<or> line_end (last (normalizeLyrics (parseLrc_finalLyrics ts))) \<le> T))
   \<and> (ls \<noteq> [] \<and> sorted (map time ls) \<and> 2 \<le> num_or (duration (last ls)) 5 \<longrightarrow>
        (activeIndex (normalizeLyrics ls) T = - 1 \<longleftrightarrow>
           T < time (hd (normalizeLyrics ls)) \<or> line_end (last (normalizeLyrics ls)) \<le> T))
   \<and> activeIndex (normalizeLyrics []) T = - 1
   \<and> activeIndex (normalizeLyrics
         [\<lparr>time = 0, text_str = x, duration = Some 5\<rparr>,
          \<lparr>time = 5, text_str = y, duration = Some 5\<rparr>]) 6 = 1
   \<and> distance (snd (LyricsView
         [\<lparr>time = 0, text_str = x, duration = Some 5\<rparr>,
          \<lparr>time = 5, text_str = y, duration = Some 5\<rparr>] 6 ! 0)) = 1"
proof (intro conjI)
  show "let fl = normalizeLyrics ls; a = activeIndex fl T in
      (a = - 1 \<and> (\<forall>l \<in> set fl. \<not> in_interval l T))
      \<or> (0 \<le> a \<and> nat a < length fl \<and> in_interval (fl ! nat a) T
         \<and> (\<forall>j < nat a. \<not> in_interval (fl ! j) T))"
    using activeIndex_first [of ls T] by (simp add: Let_def)
  show "ts \<noteq> [] \<and> sorted (map fst ts) \<longrightarrow>
        (activeIndex (normalizeLyrics (parseLrc_finalLyrics ts)) T = - 1 \<longleftrightarrow>
           T < time (hd (normalizeLyrics (parseLrc_finalLyrics ts)))
           \<or> line_end (last (normalizeLyrics (parseLrc_finalLyrics ts))) \<le> T)"
    using activeIndex_none_pipeline [of ts T] by blast
  show "ls \<noteq> [] \<and> sorted (map time ls) \<and> 2 \<le> num_or (duration (last ls)) 5 \<longrightarrow>
        (activeIndex (normalizeLyrics ls) T = - 1 \<longleftrightarrow>
           T < time (hd (normalizeLyrics ls)) \<or> line_end (last (normalizeLyrics ls)) \<le> T)"
    using activeIndex_none_sorted [of ls T] by blast
  show "activeIndex (normalizeLyrics []) T = - 1"
    by (simp add: normalizeLyrics_Nil activeIndex_def findIndex_Nil)
  have a: "activeIndex (normalizeLyrics
         [\<lparr>time = 0, text_str = x, duration = Some 5\<rparr>,
          \<lparr>time = 5, text_str = y, duration = Some 5\<rparr>]) 6 = 1"
    by (simp add: normalizeLyrics_Cons2 normalizeLyrics_single activeIndex_def
        findIndex_Cons findIndex_Nil is_current_def)
  then show "activeIndex (normalizeLyrics
         [\<lparr>time = 0, text_str = x, duration = Some 5\<rparr>,
          \<lparr>time = 5, text_str = y, duration = Some 5\<rparr>]) 6 = 1" .
  show "distance (snd (LyricsView
         [\<lparr>time = 0, text_str = x, duration = Some 5\<rparr>,
          \<lparr>time = 5, text_str = y, duration = Some 5\<rparr>] 6 ! 0)) = 1"
    by (simp add: LyricsView_def Let_def a row_props_def)
qed

text \<open>
  Two lines with the same tag 1, and the lines at 0 and 5: no active line at 7, at 12
  and before the first start.
\<close>

theorem activeIndex_first_containing_witness:
  "sorted (map fst [(1 :: real, [0x61 :: 16 word]), (1, [0x62])])
   \<and> line_end (last (normalizeLyrics (parseLrc_finalLyrics [(1, [0x61]), (1, [0x62])]))) = 6
   \<and> activeIndex (normalizeLyrics (parseLrc_finalLyrics [(1, [0x61]), (1, [0x62])])) 7 = - 1
   \<and> activeIndex (normalizeLyrics (parseLrc_finalLyrics [(1, [0x61]), (1, [0x62])])) (1 / 2)
       = - 1
   \<and> sorted (map time
        [\<lparr>time = 0, text_str = [0x61], duration = Some 5\<rparr>,
         \<lparr>time = 5, text_str = [0x62], duration = Some 5\<rparr>])
   \<and> activeIndex (normalizeLyrics
        [\<lparr>time = 0, text_str = [0x61], duration = Some 5\<rparr>,
         \<lparr>time = 5, text_str = [0x62], duration = Some 5\<rparr>]) 12 = - 1"
  using activeIndex_first_containing [of
      "[\<lparr>time = 0, text_str = [0x61], duration = Some 5\<rparr>,
        \<lparr>time = 5, text_str = [0x62], duration = Some 5\<rparr>]" 12
      "[(1, [0x61]), (1, [0x62])]"]
    activeIndex_first_containing [of "[]" 7 "[(1, [0x61]), (1, [0x62])]"]
    activeIndex_first_containing [of "[]" "1 / 2" "[(1, [0x61]), (1, [0x62])]"]
  by (simp add: parseLrc_Cons2 parseLrc_single normalizeLyrics_Cons2 normalizeLyrics_single
      line_end_def)

section \<open>Frame, idempotence and the guard of \<^verbatim>\<open>normalizeLyrics\<close>\<close>

text \<open>
  Claim C6. The normalization pass of the lyrics view is idempotent: normalizing an
  already normalized list changes nothing. Start times are never touched, so the
  durations of the inner lines are derived from the same differences again, and the
  duration the last line received is not zero, so it is kept.
\<close>

theorem normalizeLyrics_idempotent:
  "normalizeLyrics (normalizeLyrics ls) = normalizeLyrics ls"
proof (rule nth_equalityI)
  show "length (normalizeLyrics (normalizeLyrics ls)) = length (normalizeLyrics ls)"
    by simp
next
  fix i assume "i < length (normalizeLyrics (normalizeLyrics ls))"
  then have i: "i < length ls" by simp
  show "normalizeLyrics (normalizeLyrics ls) ! i = normalizeLyrics ls ! i"
  proof (cases "Suc i = length ls")
    case True
    then show ?thesis using i
      by (simp add: normalizeLyrics_nth normalize_line_last num_or_nonzero)
  next
    case False
    then have "Suc i < length ls" using i by linarith
    then show ?thesis using i
      by (simp add: normalizeLyrics_nth normalize_line_inner)
  qed
qed

text \<open>
  Claim C8. \<^verbatim>\<open>normalizeLyrics\<close> returns a list of the same length whose line \<open>i\<close> has
  the time and the text of input line \<open>i\<close>; the two lists agree once the durations are
  blanked, so the duration is the only field that may differ.
\<close>

theorem normalizeLyrics_frame:
  "length (normalizeLyrics ls) = length ls
   \<and> map time (normalizeLyrics ls) = map time ls
   \<and> map text_str (normalizeLyrics ls) = map text_str ls
   \<and> map (\<lambda>l. l\<lparr>duration := None\<rparr>) (normalizeLyrics ls)
       = map (\<lambda>l. l\<lparr>duration := None\<rparr>) ls"
proof (intro conjI)
  show "length (normalizeLyrics ls) = length ls" by simp
  show "map time (normalizeLyrics ls) = map time ls"
    by (rule nth_equalityI) (simp_all add: normalizeLyrics_nth)
  show "map text_str (normalizeLyrics ls) = map text_str ls"
    by (rule nth_equalityI) (simp_all add: normalizeLyrics_nth)
  show "map (\<lambda>l. l\<lparr>duration := None\<rparr>) (normalizeLyrics ls)
        = map (\<lambda>l. l\<lparr>duration := None\<rparr>) ls"
    by (rule nth_equalityI) (simp_all add: normalizeLyrics_nth normalize_line_def Let_def)
qed

text \<open>
  Claim C10. The guard of \<^verbatim>\<open>normalizeLyrics\<close> fires for every line that is not the
  last and whose distance to the next start is at most 0.1 seconds, small positive
  distances included: such a line gets the duration 2.0.
\<close>

theorem normalizeLyrics_guard:
  "i + 1 < length ls \<Longrightarrow> time (ls ! (i + 1)) - time (ls ! i) \<le> 0.1 \<Longrightarrow>
   duration (normalizeLyrics ls ! i) = Some 2.0"
  by (simp add: normalizeLyrics_nth normalize_line_inner)

text \<open>The guard on two lines that are 0.05 seconds apart.\<close>

theorem normalizeLyrics_guard_witness:
  "duration (normalizeLyrics
      [\<lparr>time = 0, text_str = [0x61], duration = Some 0.05\<rparr>,
       \<lparr>time = 0.05, text_str = [0x62], duration = None\<rparr>] ! 0) = Some 2.0"
  using normalizeLyrics_guard [of 0
      "[\<lparr>time = 0, text_str = [0x61], duration = Some 0.05\<rparr>,
        \<lparr>time = 0.05, text_str = [0x62], duration = None\<rparr>]"]
  by simp


section \<open>The lyric row\<close>

lemma fillDuration_pos: "0 < fillDuration line"
  by (simp add: fillDuration_def max_def) 

lemma elapsed_nonneg: "0 \<le> elapsed line T"
  by (simp add: elapsed_def)

text \<open>
  Claim C7. With the fill duration \<open>max 0.5 (duration * 0.85)\<close>: once the elapsed time
  has reached the fill duration every character is filled to 1, at elapsed time 0 every
  character is filled to 0, and in general character \<open>i\<close> is filled to
  \<open>clamp (progress * charCount - i)\<close> with \<open>progress = clamp (elapsed / fillDuration)\<close>,
  both clamps to the interval from 0 to 1.
\<close>

theorem fill_percents_clamp:
  "(fillDuration line \<le> elapsed line T \<longrightarrow>
      fill_percents line T = replicate (length (text_str line)) 1)
   \<and> (elapsed line T = 0 \<longrightarrow>
      fill_percents line T = replicate (length (text_str line)) 0)
   \<and> (\<forall>i < length (text_str line).
        fill_percents line T ! i =
          max 0 (min 1 (max 0 (min 1 (elapsed line T / fillDuration line))
                         * real (length (text_str line)) - real i)))"
proof (intro conjI impI allI)
  assume h: "fillDuration line \<le> elapsed line T"
  have "1 \<le> elapsed line T / fillDuration line"
    using h fillDuration_pos [of line] by (simp add: le_divide_eq)
  then have p: "progress line T = 1" by (simp add: progress_def)
  show "fill_percents line T = replicate (length (text_str line)) 1"
    by (rule nth_equalityI) (simp_all add: fill_percents_def percent_def currentStep_def p)
next
  assume h: "elapsed line T = 0"
  then have p: "progress line T = 0" by (simp add: progress_def)
  show "fill_percents line T = replicate (length (text_str line)) 0"
    by (rule nth_equalityI) (simp_all add: fill_percents_def percent_def currentStep_def p)
next
  fix i assume i: "i < length (text_str line)"
  have "0 \<le> elapsed line T / fillDuration line"
    using fillDuration_pos [of line] elapsed_nonneg [of line T] by simp
  then have "max 0 (min 1 (elapsed line T / fillDuration line)) = progress line T"
    by (simp add: progress_def)
  then show "fill_percents line T ! i =
          max 0 (min 1 (max 0 (min 1 (elapsed line T / fillDuration line))
                         * real (length (text_str line)) - real i))"
    using i by (simp add: fill_percents_def percent_def currentStep_def)
qed

text \<open>A line of two characters and duration 4: full at 3.4 seconds, empty at 0, and
  the second character half filled at 2.55 seconds.\<close>

theorem fill_percents_clamp_witness:
  "fillDuration \<lparr>time = 0, text_str = [0x61, 0x62], duration = Some 4\<rparr> = 3.4
   \<and> elapsed \<lparr>time = 0, text_str = [0x61, 0x62], duration = Some 4\<rparr> 3.4 = 3.4
   \<and> fill_percents \<lparr>time = 0, text_str = [0x61, 0x62], duration = Some 4\<rparr> 3.4 = [1, 1]
   \<and> elapsed \<lparr>time = 0, text_str = [0x61, 0x62], duration = Some 4\<rparr> 0 = 0
   \<and> fill_percents \<lparr>time = 0, text_str = [0x61, 0x62], duration = Some 4\<rparr> 0 = [0, 0]
   \<and> fill_percents \<lparr>time = 0, text_str = [0x61, 0x62], duration = Some 4\<rparr> 2.55 ! 1 = 0.5"
  using fill_percents_clamp [of "\<lparr>time = 0, text_str = [0x61, 0x62], duration = Some 4\<rparr>" "3.4"]
    fill_percents_clamp [of "\<lparr>time = 0, text_str = [0x61, 0x62], duration = Some 4\<rparr>" 0]
    fill_percents_clamp [of "\<lparr>time = 0, text_str = [0x61, 0x62], duration = Some 4\<rparr>" "2.55"]
  by (simp add: fillDuration_def elapsed_def)

text \<open>
  Claim C9. When the active index is \<open>-1\<close>, no row is active, no row is past, and row
  \<open>i\<close> has distance \<open>i + 1\<close>: every row, the first included, is blurred by
  \<open>min 8 ((i + 1) * 1.5) > 0\<close> and scaled by \<open>max 0.85 (1 - (i + 1) * 0.05) < 1\<close>.
\<close>

theorem no_active_line_rows:
  "activeIndex (normalizeLyrics lyrics) T = - 1 \<Longrightarrow> i < length lyrics \<Longrightarrow>
   (let p = snd (LyricsView lyrics T ! i) in
     \<not> isActive p \<and> \<not> isPast p \<and> distance p = int i + 1
     \<and> blur p = min 8 ((real i + 1) * 1.5) \<and> 0 < blur p
     \<and> scale p = max 0.85 (1 - (real i + 1) * 0.05) \<and> scale p < 1)"
  by (simp add: LyricsView_def row_props_def blur_def scale_def Let_def)

text \<open>Twelve seconds into two lines that end at ten.\<close>

theorem no_active_line_rows_witness:
  "activeIndex (normalizeLyrics
      [\<lparr>time = 0, text_str = [0x61], duration = Some 5\<rparr>,
       \<lparr>time = 5, text_str = [0x62], duration = Some 5\<rparr>]) 12 = - 1
   \<and> blur (snd (LyricsView
      [\<lparr>time = 0, text_str = [0x61], duration = Some 5\<rparr>,
       \<lparr>time = 5, text_str = [0x62], duration = Some 5\<rparr>] 12 ! 0)) = 1.5
   \<and> scale (snd (LyricsView
      [\<lparr>time = 0, text_str = [0x61], duration = Some 5\<rparr>,
       \<lparr>time = 5, text_str = [0x62], duration = Some 5\<rparr>] 12 ! 0)) = 0.95"
proof -
  have a: "activeIndex (normalizeLyrics
      [\<lparr>time = 0, text_str = [0x61], duration = Some 5\<rparr>,
       \<lparr>time = 5, text_str = [0x62], duration = Some 5\<rparr>]) 12 = - 1"
    by (simp add: normalizeLyrics_Cons2 normalizeLyrics_single activeIndex_def
        findIndex_Cons findIndex_Nil is_current_def)
  show ?thesis
    using a no_active_line_rows [OF a, of 0] by (simp add: Let_def)
qed


section \<open>Peak hold\<close>

lemma peaks_after_append: "peaks_after p (hs @ [h]) = peak_update h (peaks_after p hs)"
  by (induction hs arbitrary: p) simp_all

lemma peaks_after_decay:
  assumes "p0 < H"
    and "\<forall>j<k. h \<le> H * 0.95 ^ j - 10 * (1 - 0.95 ^ j)"
  shows "peaks_after p0 (H # replicate k h) = H * 0.95 ^ k - 10 * (1 - 0.95 ^ k)"
  using assms(2)
proof (induction k)
  case 0
  show ?case using assms(1) by (simp add: peak_update_def)
next
  case (Suc k)
  have prev: "peaks_after p0 (H # replicate k h) = H * 0.95 ^ k - 10 * (1 - 0.95 ^ k)"
    using Suc by simp
  have le: "h \<le> H * 0.95 ^ k - 10 * (1 - 0.95 ^ k)"
    using Suc.prems by simp
  have "peaks_after p0 (H # replicate (Suc k) h) = peaks_after p0 ((H # replicate k h) @ [h])"
    by (simp add: replicate_append_same)
  also have "\<dots> = peak_update h (peaks_after p0 (H # replicate k h))"
    by (rule peaks_after_append)
  also have "\<dots> = (H * 0.95 ^ k - 10 * (1 - 0.95 ^ k)) * 0.95 - 0.5"
    unfolding prev using le by (simp add: peak_update_def)
  also have "\<dots> = H * 0.95 ^ Suc k - 10 * (1 - 0.95 ^ Suc k)"
    by (simp add: algebra_simps)
  finally show ?case .
qed

lemma barHeight_silent: "barHeight playing 0 h i = 2"
  by (simp add: barHeight_def)

lemma barHeight_paused: "barHeight False d h i = 2"
  by (simp add: barHeight_def)

lemma barHeight_floor: "2 \<le> barHeight playing d h i"
  by (simp add: barHeight_def Let_def)

text \<open>
  Claim C2 does not hold as stated. A bar at full scale in a window 800 high is drawn
  360 high, a silent one 2 high. After the full-scale frame the stored peak of the
  second silent frame is 323.925 (whether the silent height is taken as 2 or as 0), not
  \<open>360 * 0.95\<^sup>2 - 0.5 * 2 = 323.9\<close>: each frame subtracts 0.5 after multiplying, so
  the earlier subtractions are scaled down too. Nor is the stored peak clipped at 0:
  with bar heights 0 after a height 2 it is negative in the fourth silent frame, is
  set to the bar height 0 in the fifth and is -0.5 in the sixth; with the silent
  height 2 of the program it is back at 2 in the fourth frame, where the expression of
  the claim is 0.
\<close>

theorem peak_decay_counterexample:
  "barHeight True 255 800 20 = 360 \<and> barHeight True 0 800 20 = 2
   \<and> peaks_after 0 [360, 2, 2] = 323.925
   \<and> peaks_after 0 [360, 0, 0] = 323.925
   \<and> max 0 (360 * 0.95 ^ 2 - 0.5 * 2) = (323.9 :: real)
   \<and> peaks_after 0 [2, 0, 0, 0, 0] < 0
   \<and> peaks_after 0 [2, 0, 0, 0, 0, 0, 0] = - 0.5
   \<and> peaks_after 0 [2, 2, 2, 2, 2] = 2
   \<and> max 0 (2 * 0.95 ^ 4 - 0.5 * 4) = (0 :: real)"
proof -
  have "barHeight True 255 800 20 = 360" "barHeight True 0 800 20 = 2"
    by (simp_all add: barHeight_def)
  moreover have "peaks_after 0 [360, 2, 2] = 323.925" "peaks_after 0 [360, 0, 0] = 323.925"
    "peaks_after 0 [2, 0, 0, 0, 0] < 0" "peaks_after 0 [2, 0, 0, 0, 0, 0, 0] = - 0.5"
    "peaks_after 0 [2, 2, 2, 2, 2] = 2"
    by (simp_all add: peak_update_def)
  moreover have "max 0 (360 * 0.95 ^ 2 - 0.5 * 2) = (323.9 :: real)"
    "max 0 (2 * 0.95 ^ 4 - 0.5 * 4) = (0 :: real)"
    by (simp_all add: power2_eq_square power4_eq_xxxx)
  ultimately show ?thesis by blast
qed

text \<open>
  Claim C2, amended. For a bar drawn with height \<open>H\<close> in frame 0, above the peak stored
  before, and with height \<open>h\<close> in every later frame, the stored peak of frame \<open>k\<close> is
  \<open>H * 0.95\<^sup>k - 10 * (1 - 0.95\<^sup>k)\<close>, the decay \<open>p \<mapsto> 0.95 * p - 0.5\<close> applied
  \<open>k\<close> times, as long as that value was not below \<open>h\<close> in the frames before \<open>k\<close>.
  There is no clipping at 0: a stored peak below the bar height is replaced by the bar
  height, and the frame after that decays it again. The bar of a silent bin is drawn
  with height 2, not 0.
\<close>

theorem peak_decay:
  "(p0 < H \<and> (\<forall>j<k. h \<le> H * 0.95 ^ j - 10 * (1 - 0.95 ^ j)) \<longrightarrow>
      peaks_after p0 (H # replicate k h) = H * 0.95 ^ k - 10 * (1 - 0.95 ^ k))
   \<and> (p < h \<longrightarrow> peak_update h p = h)
   \<and> peak_update h h = h * 0.95 - 0.5
   \<and> barHeight playing 0 wh i = 2"
  using peaks_after_decay [of p0 H k h]
  by (simp add: peak_update_def barHeight_silent)

theorem peak_decay_witness:
  "peaks_after 0 [100, 2, 2, 2] = 84.31125
   \<and> peak_update 2 1.4 = 2"
  using peak_decay [of 0 100 3 2 "1.4" True 0 0]
  by (simp add: less_Suc_eq power2_eq_square eval_nat_numeral)

section \<open>The global alpha of the draw calls\<close>

lemma draw_bars_quiet:
  "\<forall>i \<in> set is. i < length pks \<and> pks ! i \<le> 5 \<Longrightarrow> distinct is \<Longrightarrow>
   snd (draw_bars False inp is pks c) =
     c\<lparr>calls := calls c @ concat (map (\<lambda>_. [(BarFill, globalAlpha c), (ReflectionFill, globalAlpha c)]) is)\<rparr>"
proof (induction "is" arbitrary: pks c)
  case Nil
  show ?case by simp
next
  case (Cons i rest)
  have bh: "barHeight False (barData inp i) (height inp) i = 2" by (simp add: barHeight_def)
  have pk: "peak_update 2 (pks ! i) \<le> 5" using Cons.prems by (simp add: peak_update_def)
  have i: "i < length pks" using Cons.prems by simp
  let ?pks = "pks[i := peak_update 2 (pks ! i)]"
  have "\<forall>j \<in> set rest. j < length ?pks \<and> ?pks ! j \<le> 5"
    using Cons.prems by (auto simp add: nth_list_update)
  moreover have "distinct rest" using Cons.prems by simp
  ultimately have IH: "\<And>c. snd (draw_bars False inp rest ?pks c) =
     c\<lparr>calls := calls c @ concat (map (\<lambda>_. [(BarFill, globalAlpha c), (ReflectionFill, globalAlpha c)]) rest)\<rparr>"
    using Cons.IH by blast
  show ?case
    using pk i by (simp add: bh Let_def IH emit_def)
qed

text \<open>
  With a brightness between 0 and 1 every draw call of a frame happens under its own
  alpha times the brightness: the clamp changes nothing, every product is in range, and
  every reset restores the brightness.
\<close>

lemma brightness_uniform_append:
  "brightness_uniform b (cs @ ds) \<longleftrightarrow> brightness_uniform b cs \<and> brightness_uniform b ds"
  by (simp add: brightness_uniform_def)

lemma alpha_inv_emit:
  "0 \<le> b \<Longrightarrow> b \<le> 1 \<Longrightarrow> own_alpha d = 1 \<Longrightarrow> alpha_inv b c \<Longrightarrow> alpha_inv b (emit d c)"
  by (simp add: alpha_inv_def emit_def brightness_uniform_def)

lemma alpha_inv_scaled:
  assumes b: "0 \<le> b" "b \<le> 1" and a: "0 \<le> a" "a \<le> 1" and d: "own_alpha d = a"
    and inv: "alpha_inv b c"
  shows "alpha_inv b (set_globalAlpha b (emit d (set_globalAlpha (a * b) c)))"
proof -
  have "0 \<le> a * b" using a b by simp
  moreover have "a * b \<le> 1" using a b by (simp add: mult_le_one)
  ultimately show ?thesis
    using inv b d by (simp add: alpha_inv_def set_globalAlpha_def emit_def brightness_uniform_def)
qed

lemma update_rockets_inv:
  assumes b: "0 \<le> b" "b \<le> 1"
  shows "alpha_inv b c \<Longrightarrow> \<forall>p \<in> set ps. p_alpha p \<le> 1 \<Longrightarrow>
    alpha_inv b (fst (snd (update_rockets rs c ps)))
    \<and> (\<forall>p \<in> set (snd (snd (update_rockets rs c ps))). p_alpha p \<le> 1)"
proof (induction rs arbitrary: c ps)
  case Nil
  then show ?case by simp
next
  case (Cons r rs)
  have e: "alpha_inv b (emit RocketFill c)"
    using b Cons.prems(1) by (simp add: alpha_inv_emit)
  have ps': "\<forall>p \<in> set (ps @ replicate particleCount \<lparr>p_alpha = 1\<rparr>). p_alpha p \<le> 1"
    using Cons.prems(2) by auto
  show ?case
    using Cons.IH [OF e ps'] Cons.IH [OF e Cons.prems(2)]
    by (simp add: Let_def split_beta)
qed

lemma update_particles_inv:
  assumes b: "0 \<le> b" "b \<le> 1"
  shows "alpha_inv b c \<Longrightarrow> \<forall>p \<in> set ps. p_alpha p \<le> 1 \<Longrightarrow>
    alpha_inv b (snd (update_particles b ps c))"
proof (induction ps arbitrary: c)
  case Nil
  then show ?case by simp
next
  case (Cons p ps)
  have rest: "\<forall>q \<in> set ps. p_alpha q \<le> 1" using Cons.prems(2) by simp
  show ?case
  proof (cases "p_alpha p - 0.015 \<le> 0")
    case True
    then show ?thesis using Cons.IH [OF Cons.prems(1) rest] by simp
  next
    case False
    let ?a = "p_alpha p - 0.015"
    have a: "0 \<le> ?a" "?a \<le> 1" using False Cons.prems(2) by simp_all
    have "alpha_inv b (set_globalAlpha b (emit (ParticleFill ?a) (set_globalAlpha (?a * b) c)))"
      using b a Cons.prems(1) by (intro alpha_inv_scaled) simp_all
    from Cons.IH [OF this rest] show ?thesis
      using False by (simp add: Let_def split_beta)
  qed
qed

lemma sparkle_alpha_range:
  fixes nh l :: real
  assumes nh: "0 \<le> nh" "nh \<le> 1" and l: "0 \<le> l" "l \<le> 1"
  shows "0 \<le> l * (0.3 + nh * 0.4) \<and> l * (0.3 + nh * 0.4) \<le> 1"
proof -
  have f: "0 \<le> 0.3 + nh * 0.4" "0.3 + nh * 0.4 \<le> 1" using nh by simp_all
  show ?thesis using l f by (simp add: mult_le_one)
qed

lemma update_sparkles_inv:
  assumes b: "0 \<le> b" "b \<le> 1" and nh: "0 \<le> nh" "nh \<le> 1"
  shows "alpha_inv b c \<Longrightarrow>
    \<forall>p \<in> set ss. 0 \<le> s_alpha p \<and> s_alpha p \<le> 1 \<and> 0 \<le> s_life p \<Longrightarrow>
    alpha_inv b (snd (update_sparkles b nh ss c))"
proof (induction ss arbitrary: c)
  case Nil
  then show ?case by simp
next
  case (Cons p ss)
  have rest: "\<forall>q \<in> set ss. 0 \<le> s_alpha q \<and> s_alpha q \<le> 1 \<and> 0 \<le> s_life q"
    using Cons.prems(2) by simp
  have p: "0 \<le> s_alpha p" "s_alpha p \<le> 1" "0 \<le> s_life p"
    using Cons.prems(2) by simp_all
  let ?life = "s_life p + 1"
  let ?alpha = "(if ?life < 30 then (?life / 30) * (0.3 + nh * 0.4)
                    else if ?life > s_maxLife p - 30
                    then ((s_maxLife p - ?life) / 30) * (0.3 + nh * 0.4)
                    else s_alpha p)"
  show ?case
  proof (cases "?life \<ge> s_maxLife p")
    case True
    then show ?thesis using Cons.IH [OF Cons.prems(1) rest] by (simp add: Let_def)
  next
    case False
    have a: "0 \<le> ?alpha \<and> ?alpha \<le> 1"
    proof (cases "?life < 30")
      case True
      then show ?thesis
        using sparkle_alpha_range [OF nh, of "?life / 30"] p(3) by simp
    next
      case nlt: False
      show ?thesis
      proof (cases "?life > s_maxLife p - 30")
        case True
        then show ?thesis
          using sparkle_alpha_range [OF nh, of "(s_maxLife p - ?life) / 30"] False nlt
          by simp
      next
        case False
        then show ?thesis using nlt p by simp
      qed
    qed
    have "alpha_inv b (set_globalAlpha b (emit (BokehFill ?alpha) (set_globalAlpha (?alpha * b) c)))"
      using b a Cons.prems(1) by (intro alpha_inv_scaled) simp_all
    from Cons.IH [OF this rest] show ?thesis
      using False by (simp add: Let_def split_beta)
  qed
qed

lemma draw_bars_inv:
  assumes b: "0 \<le> b" "b \<le> 1"
  shows "alpha_inv b c \<Longrightarrow> alpha_inv b (snd (draw_bars playing inp is pks c))"
proof (induction "is" arbitrary: pks c)
  case Nil
  then show ?case by simp
next
  case (Cons i rest)
  have c2: "alpha_inv b (emit ReflectionFill (emit BarFill c))"
    using b Cons.prems by (simp add: alpha_inv_emit)
  then have c3: "alpha_inv b (emit PeakFill (emit ReflectionFill (emit BarFill c)))"
    using b by (simp add: alpha_inv_emit)
  show ?case
    using Cons.IH [OF c2] Cons.IH [OF c3] by (simp add: Let_def)
qed

lemma draw_brightness_uniform:
  assumes b: "0 \<le> brightness props" "brightness props \<le> 1"
    and nh: "0 \<le> normHigh inp" "normHigh inp \<le> 1"
    and ps: "\<forall>p \<in> set (particles st). p_alpha p \<le> 1"
    and ss: "\<forall>p \<in> set (sparkles st). 0 \<le> s_alpha p \<and> s_alpha p \<le> 1 \<and> 0 \<le> s_life p"
  shows "brightness_uniform (brightness props) (calls (snd (draw props inp st)))"
proof -
  let ?b = "brightness props"
  let ?c1 = "set_globalAlpha (min 1 (max 0 ?b)) \<lparr>globalAlpha = 1.0, calls = []\<rparr>"
  have c1: "alpha_inv ?b ?c1"
    using b by (simp add: alpha_inv_def set_globalAlpha_def brightness_uniform_def)
  let ?c2 = "if enableRain props then emit RainStroke ?c1 else ?c1"
  have c2: "alpha_inv ?b ?c2" using c1 b by (simp add: alpha_inv_emit)
  let ?r = "update_rockets (rev (rockets st)) ?c2 (particles st)"
  have r: "alpha_inv ?b (fst (snd ?r))" "\<forall>p \<in> set (snd (snd ?r)). p_alpha p \<le> 1"
    using update_rockets_inv [OF b c2 ps] by blast+
  let ?p = "update_particles ?b (rev (snd (snd ?r))) (fst (snd ?r))"
  have p: "alpha_inv ?b (snd ?p)"
    using r(2) by (intro update_particles_inv [OF b r(1)]) simp
  let ?c3 = "if enableFireworks props then snd ?p else ?c2"
  have c3: "alpha_inv ?b ?c3" using p c2 by simp
  let ?s = "update_sparkles ?b (normHigh inp) (rev (sparkles st)) ?c3"
  have s: "alpha_inv ?b (snd ?s)"
    using ss by (intro update_sparkles_inv [OF b nh c3]) simp
  let ?c4 = "if enableBokeh props then snd ?s else ?c3"
  have c4: "alpha_inv ?b ?c4" using s c3 by simp
  have c5: "alpha_inv ?b (snd (draw_bars (isPlaying props) inp [0..<barsToRender] (peaks st) ?c4))"
    by (rule draw_bars_inv [OF b c4])
  have "calls (snd (draw props inp st)) =
     calls (snd (draw_bars (isPlaying props) inp [0..<barsToRender] (peaks st) ?c4))"
    by (simp add: draw_def Let_def split_beta set_globalAlpha_def)
  then show ?thesis using c5 by (simp add: alpha_inv_def)
qed

text \<open>
  Claim C3, evaluated with the brightness slider at its maximum 1.5, playback paused,
  rain and fireworks on, and one firework particle of alpha 0.52 left. The rain is
  stroked under the clamped alpha 1. The particle is filled under
  \<open>0.505 * 1.5 = 0.7575\<close>, its own alpha times the brightness that is not clamped. The
  reset to \<^verbatim>\<open>brightness\<close> is an assignment of 1.5, which the context ignores, so all
  64 bars and their reflections are filled under 0.7575 as well, where the clamped
  brightness is 1. The frame is uniform only up to the brightness 1
  (\<open>draw_brightness_uniform\<close>).
\<close>

theorem draw_brightness_above_one:
  "calls (snd (draw
      \<lparr>isPlaying = False, brightness = 1.5, enableRain = True, enableFireworks = True,
        enableBokeh = False\<rparr>
      \<lparr>height = 800, normHigh = 0, barData = (\<lambda>_. 0)\<rparr>
      \<lparr>rockets = [], particles = [\<lparr>p_alpha = 0.52\<rparr>], sparkles = [],
        peaks = replicate 64 0\<rparr>))
   = [(RainStroke, 1), (ParticleFill 0.505, 0.7575)]
     @ concat (replicate 64 [(BarFill, 0.7575), (ReflectionFill, 0.7575)])
   \<and> \<not> brightness_uniform 1.5
        [(RainStroke, 1), (ParticleFill 0.505, 0.7575), (BarFill, 0.7575)]"
proof -
  have bars: "\<And>inp c. snd (draw_bars False inp [0..<64] (replicate 64 0) c) =
     c\<lparr>calls := calls c @ concat (map (\<lambda>_. [(BarFill, globalAlpha c),
           (ReflectionFill, globalAlpha c)]) [0..<64])\<rparr>"
    by (rule draw_bars_quiet) simp_all
  have m: "\<And>x :: (draw_call \<times> real) list. map (\<lambda>_. x) [0..<64] = replicate 64 x"
    by (simp add: map_replicate_const [where lst = "[0..<64]", simplified])
  show ?thesis
    by (simp add: draw_def set_globalAlpha_def emit_def barsToRender_def Let_def
        split_beta bars m brightness_uniform_def)
qed

end
